theory Spec2Isabelle
  imports Main "HOL-Library.Sublist"
begin

section \<open>Smart Task Planner: the goal-to-plan engine of \<^verbatim>\<open>task_logic.py\<close>\<close>

text \<open>
  The development embeds \<^verbatim>\<open>parse_goal_duration\<close>, \<^verbatim>\<open>mock_llm_reasoning\<close> and
  \<^verbatim>\<open>generate_plan\<close>. Python values are modelled as follows.
  \<^item> A \<^verbatim>\<open>str\<close> is a \<^typ>\<open>string\<close>; the character with code \<open>n\<close> stands for the code
    point U+00\<open>n\<close>, so the model covers texts of the Latin-1 range U+0000..U+00FF.
  \<^item> A Python \<^verbatim>\<open>int\<close> is an \<^typ>\<open>int\<close>.
  \<^item> A raised exception is the left summand of a result \<open>py_error + 'a\<close>.
  \<^item> \<^verbatim>\<open>datetime.utcnow()\<close> is an argument: each call site of the source receives its
    own clock reading.
\<close>

subsection \<open>Exceptions\<close>

datatype py_error = OverflowError | ValueError | ZeroDivisionError | IndexError | RuntimeError

subsection \<open>Characters and strings\<close>

text \<open>\<^verbatim>\<open>str.lower\<close> on the Latin-1 range: A-Z, and the accented capitals U+00C0..U+00DE
  without the multiplication sign U+00D7, move up by 32; nothing else changes.\<close>

definition lower_char :: "char \<Rightarrow> char" where
  "lower_char c =
     (let n = (of_char c :: nat)
      in if (65 \<le> n \<and> n \<le> 90) \<or> (192 \<le> n \<and> n \<le> 222 \<and> n \<noteq> 215)
         then char_of (n + 32) else c)"

definition lower :: "string \<Rightarrow> string" where
  "lower s = map lower_char s"

text \<open>The class \<^verbatim>\<open>\d\<close> of a \<^verbatim>\<open>str\<close> pattern is the decimal digits; below U+0100 these
  are 0-9 only.\<close>

definition is_digit :: "char \<Rightarrow> bool" where
  "is_digit c = (let n = (of_char c :: nat) in 48 \<le> n \<and> n \<le> 57)"

text \<open>The class \<^verbatim>\<open>\s\<close>, which is also what \<^verbatim>\<open>str.strip()\<close> removes: the Unicode white
  space below U+0100.\<close>

definition is_space :: "char \<Rightarrow> bool" where
  "is_space c =
     (let n = (of_char c :: nat)
      in (9 \<le> n \<and> n \<le> 13) \<or> (28 \<le> n \<and> n \<le> 32) \<or> n = 133 \<or> n = 160)"

definition strip :: "string \<Rightarrow> string" where
  "strip s = rev (dropWhile is_space (rev (dropWhile is_space s)))"

text \<open>The operator \<^verbatim>\<open>sub in s\<close> on strings.\<close>

fun str_contains :: "string \<Rightarrow> string \<Rightarrow> bool" where
  "str_contains sub [] = (sub = [])"
| "str_contains sub (c # cs) = (prefix sub (c # cs) \<or> str_contains sub cs)"

subsection \<open>\<^verbatim>\<open>int(str)\<close> on a run of decimal digits\<close>

text \<open>CPython refuses to convert more than 4300 digits (the default of
  \<^verbatim>\<open>sys.get_int_max_str_digits()\<close>) and raises \<^verbatim>\<open>ValueError\<close>.\<close>

definition int_max_str_digits :: nat where
  "int_max_str_digits = 4300"

definition digit_val :: "char \<Rightarrow> int" where
  "digit_val c = int (of_char c) - 48"

definition decimal :: "string \<Rightarrow> int" where
  "decimal ds = foldl (\<lambda>acc c. 10 * acc + digit_val c) 0 ds"

definition py_int :: "string \<Rightarrow> py_error + int" where
  "py_int ds = (if length ds > int_max_str_digits then Inl ValueError else Inr (decimal ds))"

subsection \<open>The regular expression of \<^verbatim>\<open>parse_goal_duration\<close>\<close>

text \<open>
  \<^verbatim>\<open>re.search(r'(\d+)\s*(day|days|week|weeks|month|months)', goal)\<close> tries every start
  position from the left. At one position the engine backtracks: \<^verbatim>\<open>\d+\<close> takes the
  longest run of digits first and then shorter ones (at least one), \<^verbatim>\<open>\s*\<close> takes the
  longest run of white space first and then shorter ones, and the alternatives of the
  second group are tried in the order written. The result is the pair of the two groups.
\<close>

definition units :: "string list" where
  "units = [''day'', ''days'', ''week'', ''weeks'', ''month'', ''months'']"

definition match_unit :: "string \<Rightarrow> string option" where
  "match_unit s = find (\<lambda>u. prefix u s) units"

fun match_ws :: "nat \<Rightarrow> string \<Rightarrow> string option" where
  "match_ws 0 s = match_unit s"
| "match_ws (Suc k) s =
     (case match_unit (drop (Suc k) s) of
        Some u \<Rightarrow> Some u
      | None \<Rightarrow> match_ws k s)"

fun match_digits :: "nat \<Rightarrow> string \<Rightarrow> (string \<times> string) option" where
  "match_digits 0 s = None"
| "match_digits (Suc k) s =
     (let rest = drop (Suc k) s
      in case match_ws (length (takeWhile is_space rest)) rest of
           Some u \<Rightarrow> Some (take (Suc k) s, u)
         | None \<Rightarrow> match_digits k s)"

definition re_match_at :: "string \<Rightarrow> (string \<times> string) option" where
  "re_match_at s = match_digits (length (takeWhile is_digit s)) s"

fun re_search :: "string \<Rightarrow> (string \<times> string) option" where
  "re_search [] = re_match_at []"
| "re_search (c # cs) =
     (case re_match_at (c # cs) of
        Some g \<Rightarrow> Some g
      | None \<Rightarrow> re_search cs)"

subsection \<open>\<^verbatim>\<open>datetime\<close> and \<^verbatim>\<open>timedelta\<close>\<close>

text \<open>
  A naive \<^verbatim>\<open>datetime\<close> is a day, counted as the library's proleptic Gregorian ordinal
  (0001-01-01 is day 1, 9999-12-31 is day 3652059), and a time of day in microseconds.
  \<^verbatim>\<open>timedelta(days=n)\<close> raises \<^verbatim>\<open>OverflowError\<close> beyond 999999999 days, and adding
  it raises \<^verbatim>\<open>OverflowError\<close> when the day leaves the years 1..9999. The time of day
  is unchanged by adding whole days.
\<close>

record datetime =
  ordinal :: int
  tod_us :: nat

definition max_ordinal :: int where
  "max_ordinal = 3652059"

definition timedelta_days :: "int \<Rightarrow> py_error + int" where
  "timedelta_days n = (if \<bar>n\<bar> > 999999999 then Inl OverflowError else Inr n)"

definition plus_days :: "datetime \<Rightarrow> int \<Rightarrow> py_error + datetime" where
  "plus_days dt n =
     (case timedelta_days n of
        Inl e \<Rightarrow> Inl e
      | Inr d \<Rightarrow>
          (if ordinal dt + d < 1 \<or> ordinal dt + d > max_ordinal then Inl OverflowError
           else Inr (dt\<lparr>ordinal := ordinal dt + d\<rparr>)))"

subsection \<open>\<^verbatim>\<open>parse_goal_duration\<close>\<close>

definition parse_goal_duration :: "datetime \<Rightarrow> string \<Rightarrow> py_error + (int \<times> datetime)" where
  "parse_goal_duration now goal0 =
     (let goal = lower goal0
      in case re_search goal of
           Some (g1, unit) \<Rightarrow>
             (case py_int g1 of
                Inl e \<Rightarrow> Inl e
              | Inr num \<Rightarrow>
                  (let days = (if str_contains ''week'' unit then num * 7
                               else if str_contains ''month'' unit then num * 30
                               else num)
                   in case plus_days now days of
                        Inl e \<Rightarrow> Inl e
                      | Inr deadline \<Rightarrow> Inr (days, deadline)))
         | None \<Rightarrow>
             (let fallback = (if str_contains ''launch'' goal \<or> str_contains ''ship'' goal
                                 \<or> str_contains ''release'' goal
                              then 14 else 30)
              in case plus_days now fallback of
                   Inl e \<Rightarrow> Inl e
                 | Inr deadline \<Rightarrow> Inr (fallback, deadline)))"

subsection \<open>Calendar dates and \<^verbatim>\<open>date.isoformat\<close>\<close>

text \<open>
  The conversion between ordinals and year, month, day is the one of the \<^verbatim>\<open>datetime\<close>
  module (\<^verbatim>\<open>_ord2ymd\<close>, \<^verbatim>\<open>_ymd2ord\<close>); its tables are indexed by the month, with an
  unused entry at index 0. \<^verbatim>\<open>isoformat\<close> prints \<^verbatim>\<open>"%04d-%02d-%02d"\<close> of the year,
  the month and the day.
\<close>

definition DAYS_IN_MONTH :: "int list" where
  "DAYS_IN_MONTH = [-1, 31, 28, 31, 30, 31, 30, 31, 31, 30, 31, 30, 31]"

definition DAYS_BEFORE_MONTH :: "int list" where
  "DAYS_BEFORE_MONTH = [-1, 0, 31, 59, 90, 120, 151, 181, 212, 243, 273, 304, 334]"

definition is_leap :: "int \<Rightarrow> bool" where
  "is_leap year = (year mod 4 = 0 \<and> (year mod 100 \<noteq> 0 \<or> year mod 400 = 0))"

definition days_before_year :: "int \<Rightarrow> int" where
  "days_before_year year = (let y = year - 1 in y * 365 + y div 4 - y div 100 + y div 400)"

definition days_in_month :: "int \<Rightarrow> int \<Rightarrow> int" where
  "days_in_month year month =
     (if month = 2 \<and> is_leap year then 29 else DAYS_IN_MONTH ! nat month)"

definition days_before_month :: "int \<Rightarrow> int \<Rightarrow> int" where
  "days_before_month year month =
     DAYS_BEFORE_MONTH ! nat month + (if month > 2 \<and> is_leap year then 1 else 0)"

definition ymd2ord :: "int \<Rightarrow> int \<Rightarrow> int \<Rightarrow> int" where
  "ymd2ord year month day = days_before_year year + days_before_month year month + day"

definition ord2ymd :: "int \<Rightarrow> int \<times> int \<times> int" where
  "ord2ymd n0 =
     (let n = n0 - 1;
          n400 = n div 146097; n = n mod 146097;
          year = n400 * 400 + 1;
          n100 = n div 36524; n = n mod 36524;
          n4 = n div 1461; n = n mod 1461;
          n1 = n div 365; n = n mod 365;
          year = year + n100 * 100 + n4 * 4 + n1
      in if n1 = 4 \<or> n100 = 4 then (year - 1, 12, 31)
         else
           (let leapyear = (n1 = 3 \<and> (n4 \<noteq> 24 \<or> n100 = 3));
                month = (n + 50) div 32;
                preceding = DAYS_BEFORE_MONTH ! nat month
                            + (if month > 2 \<and> leapyear then 1 else 0)
            in if preceding > n
               then (let month' = month - 1;
                         preceding' = preceding
                                      - (DAYS_IN_MONTH ! nat month'
                                         + (if month' = 2 \<and> leapyear then 1 else 0))
                     in (year, month', n - preceding' + 1))
               else (year, month, n - preceding + 1)))"

definition digit_char :: "nat \<Rightarrow> char" where
  "digit_char d = char_of (48 + d)"

text \<open>The year of a date is at most 9999 and its month and day are below 100, so
  \<^verbatim>\<open>%04d\<close> prints exactly four digits and \<^verbatim>\<open>%02d\<close> exactly two.\<close>

definition four_digits :: "nat \<Rightarrow> string" where
  "four_digits n =
     [digit_char (n div 1000 mod 10), digit_char (n div 100 mod 10),
      digit_char (n div 10 mod 10), digit_char (n mod 10)]"

definition two_digits :: "nat \<Rightarrow> string" where
  "two_digits n = [digit_char (n div 10 mod 10), digit_char (n mod 10)]"

fun iso_ymd :: "int \<times> int \<times> int \<Rightarrow> string" where
  "iso_ymd (y, m, d) =
     four_digits (nat y) @ ''-'' @ two_digits (nat m) @ ''-'' @ two_digits (nat d)"

definition isoformat :: "int \<Rightarrow> string" where
  "isoformat n = iso_ymd (ord2ymd n)"

text \<open>\<^verbatim>\<open>dt.date().isoformat()\<close>.\<close>

definition date_iso :: "datetime \<Rightarrow> string" where
  "date_iso dt = isoformat (ordinal dt)"

subsection \<open>Lists and integers of Python\<close>

text \<open>\<^verbatim>\<open>xs[i]\<close>: an index below 0 counts from the end, and an index outside the list
  raises \<^verbatim>\<open>IndexError\<close>.\<close>

definition py_get :: "'a list \<Rightarrow> int \<Rightarrow> py_error + 'a" where
  "py_get xs i =
     (if 0 \<le> i \<and> i < int (length xs) then Inr (xs ! nat i)
      else if i < 0 \<and> - int (length xs) \<le> i then Inr (xs ! nat (int (length xs) + i))
      else Inl IndexError)"

definition list_insert :: "'a list \<Rightarrow> int \<Rightarrow> 'a \<Rightarrow> 'a list" where
  "list_insert xs i x =
     (let n = int (length xs);
          j = (if i < 0 then max 0 (i + n) else min i n)
      in take (nat j) xs @ [x] @ drop (nat j) xs)"

definition floordiv :: "int \<Rightarrow> int \<Rightarrow> py_error + int" where
  "floordiv a b = (if b = 0 then Inl ZeroDivisionError else Inr (a div b))"

subsection \<open>Tasks and the phase template\<close>

text \<open>A task is the dictionary built by the source; \<open>llm_note\<close> is the key that only
  \<^verbatim>\<open>generate_plan\<close> adds.\<close>

record task =
  title :: string
  description :: string
  start_date :: string
  end_date :: string
  depends_on :: string
  llm_note :: "string option"

definition phases :: "(string \<times> string) list" where
  "phases =
     [(''Define scope & success metrics'',
       ''Clarify goal, success metrics, target audience, and constraints.''),
      (''Design & plan'', ''Create designs, wireframes or implementation plans.''),
      (''Implementation'', ''Develop core functionality and integrate components.''),
      (''Testing & QA'', ''Test features, fix bugs, and verify performance.''),
      (''Deployment & Launch'', ''Deploy to production and run launch checklist.''),
      (''Post-launch monitoring'', ''Monitor usage, collect feedback, and iterate.'')]"

text \<open>Line 65: \<^verbatim>\<open>chosen = phases if days >= 10 else phases[:4]\<close>.\<close>

definition choose_phases :: "int \<Rightarrow> (string \<times> string) list" where
  "choose_phases days = (if days \<ge> 10 then phases else take 4 phases)"

subsection \<open>The timeline loop (lines 68 to 80)\<close>

text \<open>\<open>build_tasks start p chosen i rest\<close> is the loop
  \<^verbatim>\<open>for i, (t, desc) in enumerate(chosen, start=1)\<close> from index \<open>i\<close> on, \<open>rest\<close> being the
  phases not yet visited.\<close>

fun build_tasks ::
  "datetime \<Rightarrow> int \<Rightarrow> (string \<times> string) list \<Rightarrow> int \<Rightarrow> (string \<times> string) list
     \<Rightarrow> py_error + task list" where
  "build_tasks start p chosen i [] = Inr []"
| "build_tasks start p chosen i ((t, desc) # rest) =
     (case plus_days start ((i - 1) * p) of
        Inl e \<Rightarrow> Inl e
      | Inr s \<Rightarrow>
     (case plus_days start (i * p - 1) of
        Inl e \<Rightarrow> Inl e
      | Inr e \<Rightarrow>
     (case (if i = 1 then Inr [] else map_sum id fst (py_get chosen (i - 2))) of
        Inl e \<Rightarrow> Inl e
      | Inr dep \<Rightarrow>
     (case build_tasks start p chosen (i + 1) rest of
        Inl e \<Rightarrow> Inl e
      | Inr ts \<Rightarrow>
          Inr (\<lparr>title = t, description = desc, start_date = date_iso s,
                end_date = date_iso e, depends_on = dep, llm_note = None\<rparr> # ts)))))"

definition allocate ::
  "datetime \<Rightarrow> int \<Rightarrow> (string \<times> string) list \<Rightarrow> py_error + (int \<times> task list)" where
  "allocate start days chosen =
     (case floordiv days (int (length chosen)) of
        Inl e \<Rightarrow> Inl e
      | Inr q \<Rightarrow>
          (let per_task_days = max 1 q
           in case build_tasks start per_task_days chosen 1 chosen of
                Inl e \<Rightarrow> Inl e
              | Inr tasks \<Rightarrow> Inr (per_task_days, tasks)))"

subsection \<open>\<^verbatim>\<open>mock_llm_reasoning\<close>\<close>

text \<open>
  \<open>now\<close> is the clock reading inside \<^verbatim>\<open>parse_goal_duration\<close>, \<open>start\<close> the one of
  line 69. The local \<^verbatim>\<open>title\<close> of line 49 is never used and cannot raise; it is left out.
\<close>

definition marketing_trigger :: "string \<Rightarrow> bool" where
  "marketing_trigger goal_text =
     (str_contains ''product'' (lower goal_text) \<and> str_contains ''marketing'' (lower goal_text))"

definition mock_llm_reasoning :: "datetime \<Rightarrow> datetime \<Rightarrow> string \<Rightarrow> py_error + task list" where
  "mock_llm_reasoning now start goal_text =
     (case parse_goal_duration now goal_text of
        Inl e \<Rightarrow> Inl e
      | Inr (days, deadline) \<Rightarrow>
     (let chosen = choose_phases days
      in case allocate start days chosen of
           Inl e \<Rightarrow> Inl e
         | Inr (per_task_days, tasks) \<Rightarrow>
             (if marketing_trigger goal_text
              then (case plus_days start per_task_days of
                      Inl e \<Rightarrow> Inl e
                    | Inr s \<Rightarrow>
                   (case plus_days start (per_task_days * 2) of
                      Inl e \<Rightarrow> Inl e
                    | Inr e \<Rightarrow>
                   (case py_get chosen 0 of
                      Inl e \<Rightarrow> Inl e
                    | Inr first \<Rightarrow>
                        Inr (list_insert tasks (int (length tasks) - 1)
                               \<lparr>title = ''Marketing prep'',
                                description =
                                  ''Prepare assets, landing page, email sequences and socials.'',
                                start_date = date_iso s,
                                end_date = date_iso e,
                                depends_on = fst first,
                                llm_note = None\<rparr>))))
              else Inr tasks)))"

subsection \<open>\<^verbatim>\<open>generate_plan\<close>\<close>

text \<open>
  The value of \<^verbatim>\<open>json.loads\<close> is a JSON document; \<^verbatim>\<open>generate_plan\<close> returns either such
  a document as it is or a list of tasks.
\<close>

datatype json =
    JNull
  | JBool bool
  | JInt int
  | JFloat string
  | JString string
  | JArray "json list"
  | JObject "(string \<times> json) list"

datatype plan_result = Parsed json | Tasks "task list"

definition build_prompt :: "string \<Rightarrow> string" where
  "build_prompt goal =
     ''Break down this user goal into an actionable task list. ''
     @ ''Include for each task: title, short description, estimated start date and end date (ISO YYYY-MM-DD), and dependencies (titles). ''
     @ ''If the goal includes a duration (e.g., 'in 2 weeks'), use that to set deadlines. ''
     @ ''Goal: '' @ goal @ [CHR 0x0A]
     @ ''Return as JSON array of objects with keys: title, description, start_date, end_date, depends_on.''"

text \<open>\<^verbatim>\<open>t.setdefault("llm_note", note)\<close>: the key is written only when it is absent.\<close>

definition setdefault_llm_note :: "string \<Rightarrow> task \<Rightarrow> task" where
  "setdefault_llm_note note t =
     (case llm_note t of None \<Rightarrow> t\<lparr>llm_note := Some note\<rparr> | Some _ \<Rightarrow> t)"

text \<open>The truth value of the module variable \<^verbatim>\<open>OPENAI_KEY\<close>, which is \<^verbatim>\<open>None\<close> or a string.\<close>

definition truthy :: "string option \<Rightarrow> bool" where
  "truthy k = (case k of None \<Rightarrow> False | Some s \<Rightarrow> s \<noteq> [])"

text \<open>
  The environment of \<^verbatim>\<open>generate_plan\<close> is explicit: \<open>OPENAI_KEY\<close> is the module variable,
  \<open>call_openai\<close> is what the awaited network call does on a prompt (it raises or returns
  the reply), \<open>json_loads\<close> is \<^verbatim>\<open>json.loads\<close>. The first call of \<^verbatim>\<open>mock_llm_reasoning\<close>
  in one run reads the clock as \<open>now1\<close> and \<open>start1\<close>, a second call (in the outer
  handler, after the first one raised) as \<open>now2\<close> and \<open>start2\<close>. Both handlers are
  \<^verbatim>\<open>except Exception\<close>; the \<^verbatim>\<open>print\<close> of the outer one is not modelled.
\<close>

definition generate_plan ::
  "string option \<Rightarrow> (string \<Rightarrow> py_error + string) \<Rightarrow> (string \<Rightarrow> py_error + json)
     \<Rightarrow> datetime \<Rightarrow> datetime \<Rightarrow> datetime \<Rightarrow> datetime
     \<Rightarrow> string \<Rightarrow> bool \<Rightarrow> py_error + plan_result" where
  "generate_plan OPENAI_KEY call_openai json_loads now1 start1 now2 start2 goal_text0 use_openai =
     (let goal_text = strip goal_text0
      in if use_openai \<and> truthy OPENAI_KEY
         then
           (case call_openai (build_prompt goal_text) of
              Inl e \<Rightarrow> map_sum id Tasks (mock_llm_reasoning now1 start1 goal_text)
            | Inr reply \<Rightarrow>
                (case json_loads reply of
                   Inr parsed \<Rightarrow> Inr (Parsed parsed)
                 | Inl e \<Rightarrow>
                     (case mock_llm_reasoning now1 start1 goal_text of
                        Inr plan \<Rightarrow>
                          Inr (Tasks (map (setdefault_llm_note (take 400 reply)) plan))
                      | Inl e' \<Rightarrow>
                          map_sum id Tasks (mock_llm_reasoning now2 start2 goal_text))))
         else map_sum id Tasks (mock_llm_reasoning now1 start1 goal_text))"

subsection \<open>What the specification says about the duration pattern\<close>

text \<open>
  The pattern is an integer, optional white space and a unit word. \<open>is_match_at s ds u\<close>
  says that \<open>s\<close> begins with such a pattern, made of the digits \<open>ds\<close> and the unit \<open>u\<close>;
  the first match of a text is at the leftmost position where one begins.
\<close>

definition is_match_at :: "string \<Rightarrow> string \<Rightarrow> string \<Rightarrow> bool" where
  "is_match_at s ds u =
     (\<exists>ws rest. s = ds @ ws @ u @ rest \<and> ds \<noteq> [] \<and> list_all is_digit ds
        \<and> list_all is_space ws \<and> u \<in> set units)"

definition is_first_match :: "string \<Rightarrow> nat \<Rightarrow> string \<Rightarrow> string \<Rightarrow> bool" where
  "is_first_match s p ds u =
     (p \<le> length s \<and> is_match_at (drop p s) ds u
      \<and> (\<forall>q<p. \<forall>ds' u'. \<not> is_match_at (drop q s) ds' u'))"

definition has_match :: "string \<Rightarrow> bool" where
  "has_match s = (\<exists>p ds u. p \<le> length s \<and> is_match_at (drop p s) ds u)"

definition unit_factor :: "string \<Rightarrow> int" where
  "unit_factor u =
     (if u = ''week'' \<or> u = ''weeks'' then 7
      else if u = ''month'' \<or> u = ''months'' then 30
      else 1)"

definition fallback_days :: "string \<Rightarrow> int" where
  "fallback_days goal =
     (if str_contains ''launch'' goal \<or> str_contains ''ship'' goal
         \<or> str_contains ''release'' goal
      then 14 else 30)"

subsection \<open>The tasks the timeline is expected to hold\<close>

text \<open>\<open>phase_task start p chosen i (t, desc)\<close> is the task of the \<open>i\<close>-th phase, counted from
  1, for a start day \<open>start\<close> (an ordinal) and \<open>p\<close> days per task.\<close>

definition phase_task ::
  "int \<Rightarrow> int \<Rightarrow> (string \<times> string) list \<Rightarrow> int \<Rightarrow> string \<times> string \<Rightarrow> task" where
  "phase_task start p chosen i ph =
     \<lparr>title = fst ph, description = snd ph,
      start_date = isoformat (start + (i - 1) * p),
      end_date = isoformat (start + i * p - 1),
      depends_on = (if i = 1 then [] else fst (chosen ! nat (i - 2))),
      llm_note = None\<rparr>"

definition marketing_task :: "int \<Rightarrow> int \<Rightarrow> (string \<times> string) list \<Rightarrow> task" where
  "marketing_task start p chosen =
     \<lparr>title = ''Marketing prep'',
      description = ''Prepare assets, landing page, email sequences and socials.'',
      start_date = isoformat (start + p),
      end_date = isoformat (start + 2 * p),
      depends_on = fst (hd chosen),
      llm_note = None\<rparr>"

definition per_task :: "int \<Rightarrow> int" where
  "per_task days = max 1 (days div int (length (choose_phases days)))"

subsection \<open>Valid calendar dates in ISO-8601 form\<close>

text \<open>
  What the specification calls a valid ISO-8601 calendar date: four digits of the year,
  two of the month and two of the day, separated by hyphens, naming a day that exists
  (the month in 1..12, the day within the length of that month in that year).
  \<open>fromisoformat\<close> reads such a string, as \<^verbatim>\<open>date.fromisoformat\<close> does, and \<open>ymd_le\<close> is
  the order of calendar dates.
\<close>

definition fromisoformat :: "string \<Rightarrow> (int \<times> int \<times> int) option" where
  "fromisoformat s =
     (if length s = 10 \<and> s ! 4 = CHR ''-'' \<and> s ! 7 = CHR ''-''
         \<and> list_all is_digit (take 4 s) \<and> list_all is_digit (take 2 (drop 5 s))
         \<and> list_all is_digit (drop 8 s)
      then (let y = decimal (take 4 s); m = decimal (take 2 (drop 5 s)); d = decimal (drop 8 s)
            in if 1 \<le> y \<and> 1 \<le> m \<and> m \<le> 12 \<and> 1 \<le> d \<and> d \<le> days_in_month y m
               then Some (y, m, d) else None)
      else None)"

fun ymd_le :: "int \<times> int \<times> int \<Rightarrow> int \<times> int \<times> int \<Rightarrow> bool" where
  "ymd_le (y, m, d) (y', m', d') =
     (y < y' \<or> (y = y' \<and> (m < m' \<or> (m = m' \<and> d \<le> d'))))"

text \<open>The second half of \<^verbatim>\<open>_ord2ymd\<close> on its own: month and day of the \<open>n\<close>-th day of a
  year, counted from 0. It is used to reason about \<open>ord2ymd\<close>.\<close>

definition month_day :: "bool \<Rightarrow> int \<Rightarrow> int \<times> int" where
  "month_day leapyear n =
     (let month = (n + 50) div 32;
          preceding = DAYS_BEFORE_MONTH ! nat month
                      + (if month > 2 \<and> leapyear then 1 else 0)
      in if preceding > n
         then (let month' = month - 1;
                   preceding' = preceding
                                - (DAYS_IN_MONTH ! nat month'
                                   + (if month' = 2 \<and> leapyear then 1 else 0))
               in (month', n - preceding' + 1))
         else (month, n - preceding + 1))"

section \<open>Properties\<close>

subsection \<open>The regular expression: backtracking finds the greedy match\<close>

lemma digit_not_space: "is_digit c \<Longrightarrow> \<not> is_space c"
  by (auto simp: is_digit_def is_space_def Let_def)

lemma units_heads:
  "list_all (\<lambda>u. u \<noteq> [] \<and> \<not> is_digit (hd u) \<and> \<not> is_space (hd u)) units"
  by code_simp

lemma unit_head:
  "u \<in> set units \<Longrightarrow> u \<noteq> [] \<and> \<not> is_digit (hd u) \<and> \<not> is_space (hd u)"
  using units_heads by (simp add: list_all_iff)

lemma prefix_hd: "prefix u (c # s) \<Longrightarrow> u \<noteq> [] \<Longrightarrow> hd u = c"
  by (cases u) auto

lemma match_unit_SomeD: "match_unit s = Some u \<Longrightarrow> u \<in> set units \<and> prefix u s"
proof -
  assume "match_unit s = Some u"
  then have "find (\<lambda>u. prefix u s) units = Some u" by (simp add: match_unit_def)
  then obtain i where "i < length units" "prefix (units ! i) s" "u = units ! i"
    unfolding find_Some_iff by metis
  then show ?thesis by simp
qed

lemma match_unit_digit: "is_digit c \<Longrightarrow> match_unit (c # s) = None"
proof -
  assume d: "is_digit c"
  have "\<not> prefix u (c # s)" if "u \<in> set units" for u
    using unit_head[OF that] prefix_hd[of u c s] d by metis
  then show ?thesis unfolding match_unit_def find_None_iff by simp
qed

lemma match_unit_space: "is_space c \<Longrightarrow> match_unit (c # s) = None"
proof -
  assume d: "is_space c"
  have "\<not> prefix u (c # s)" if "u \<in> set units" for u
    using unit_head[OF that] prefix_hd[of u c s] d by metis
  then show ?thesis unfolding match_unit_def find_None_iff by simp
qed

lemma drop_in_takeWhile:
  assumes "j < length (takeWhile P s)"
  shows "\<exists>c t. drop j s = c # t \<and> P c"
proof -
  have js: "j < length s" using assms length_takeWhile_le[of P s] by simp
  then have "drop j s = s ! j # drop (Suc j) s" by (simp add: Cons_nth_drop_Suc)
  moreover have "takeWhile P s ! j = s ! j" using assms by (rule takeWhile_nth)
  then have "P (s ! j)" using assms nth_mem[OF assms] set_takeWhileD[of "s ! j" P s] by simp
  ultimately show ?thesis by simp
qed

lemma match_ws_below: "j < length (takeWhile is_space s) \<Longrightarrow> match_ws j s = None"
proof (induction j)
  case 0
  then obtain c t where "drop 0 s = c # t" "is_space c" using drop_in_takeWhile by blast
  then show ?case by (simp add: match_unit_space)
next
  case (Suc j)
  then obtain c t where "drop (Suc j) s = c # t" "is_space c" using drop_in_takeWhile by blast
  with Suc show ?case by (simp add: match_unit_space)
qed

lemma match_ws_greedy:
  "match_ws (length (takeWhile is_space s)) s = match_unit (dropWhile is_space s)"
proof (cases "length (takeWhile is_space s)")
  case 0
  then show ?thesis by (simp add: dropWhile_eq_drop)
next
  case (Suc k)
  then have "match_ws k s = None" by (simp add: match_ws_below)
  with Suc show ?thesis by (simp add: dropWhile_eq_drop split: option.splits)
qed

lemma match_digits_below: "k < length (takeWhile is_digit s) \<Longrightarrow> match_digits k s = None"
proof (induction k)
  case 0
  then show ?case by simp
next
  case (Suc k)
  then obtain c t where ct: "drop (Suc k) s = c # t" "is_digit c" using drop_in_takeWhile by blast
  then have "takeWhile is_space (c # t) = []" by (simp add: digit_not_space)
  with ct Suc show ?case by (simp add: match_unit_digit)
qed

lemma re_match_at_greedy:
  "re_match_at s =
     (if takeWhile is_digit s = [] then None
      else map_option (Pair (takeWhile is_digit s))
             (match_unit (dropWhile is_space (dropWhile is_digit s))))"
proof (cases "length (takeWhile is_digit s)")
  case 0
  then show ?thesis by (simp add: re_match_at_def)
next
  case (Suc k)
  then have below: "match_digits k s = None" by (simp add: match_digits_below)
  have tk: "take (Suc k) s = takeWhile is_digit s"
    using Suc by (metis takeWhile_eq_take)
  have dk: "drop (Suc k) s = dropWhile is_digit s"
    using Suc by (metis dropWhile_eq_drop)
  from Suc have ne: "takeWhile is_digit s \<noteq> []" by auto
  show ?thesis
    using ne below tk dk Suc
    by (simp add: re_match_at_def match_ws_greedy Let_def split: option.splits)
qed


subsection \<open>The search agrees with the pattern of the specification\<close>

lemma re_search_SomeD:
  "re_search s = Some g \<Longrightarrow>
     \<exists>p\<le>length s. re_match_at (drop p s) = Some g \<and> (\<forall>q<p. re_match_at (drop q s) = None)"
proof (induction s)
  case Nil
  then show ?case by simp
next
  case (Cons c cs)
  show ?case
  proof (cases "re_match_at (c # cs)")
    case (Some g')
    with Cons.prems have "re_match_at (drop 0 (c # cs)) = Some g" by simp
    then show ?thesis by blast
  next
    case None
    with Cons.prems have "re_search cs = Some g" by simp
    from Cons.IH[OF this] obtain p where p: "p \<le> length cs" "re_match_at (drop p cs) = Some g"
      "\<forall>q<p. re_match_at (drop q cs) = None" by blast
    have "\<forall>q<Suc p. re_match_at (drop q (c # cs)) = None"
    proof (intro allI impI)
      fix q assume "q < Suc p"
      then show "re_match_at (drop q (c # cs)) = None"
        using None p(3) by (cases q) auto
    qed
    with p(1,2) show ?thesis by (intro exI[of _ "Suc p"]) simp
  qed
qed

lemma re_search_NoneD:
  "re_search s = None \<Longrightarrow> p \<le> length s \<Longrightarrow> re_match_at (drop p s) = None"
proof (induction s arbitrary: p)
  case Nil
  then show ?case by simp
next
  case (Cons c cs)
  from Cons.prems(1) have a: "re_match_at (c # cs) = None" and b: "re_search cs = None"
    by (auto split: option.splits)
  show ?case
  proof (cases p)
    case 0
    with a show ?thesis by simp
  next
    case (Suc p')
    with Cons.prems(2) have "p' \<le> length cs" by simp
    from Cons.IH[OF b this] Suc show ?thesis by simp
  qed
qed

lemma re_search_first:
  assumes "p \<le> length s" "re_match_at (drop p s) = Some g"
    "\<forall>q<p. re_match_at (drop q s) = None"
  shows "re_search s = Some g"
  using assms
proof (induction s arbitrary: p)
  case Nil
  then show ?case by simp
next
  case (Cons c cs)
  show ?case
  proof (cases p)
    case 0
    with Cons.prems(2) show ?thesis by simp
  next
    case (Suc p')
    with Cons.prems(3) have a: "re_match_at (c # cs) = None" by force
    have "\<forall>q<p'. re_match_at (drop q cs) = None"
    proof (intro allI impI)
      fix q assume "q < p'"
      then have "Suc q < p" using Suc by simp
      with Cons.prems(3) have "re_match_at (drop (Suc q) (c # cs)) = None" by blast
      then show "re_match_at (drop q cs) = None" by simp
    qed
    moreover have "p' \<le> length cs" "re_match_at (drop p' cs) = Some g"
      using Cons.prems(1,2) Suc by simp_all
    ultimately have "re_search cs = Some g" using Cons.IH by blast
    with a show ?thesis by simp
  qed
qed

lemma re_match_at_digits:
  "re_match_at s = Some (ds, u) \<Longrightarrow> ds \<noteq> [] \<and> list_all is_digit ds \<and> u \<in> set units"
  by (auto simp: re_match_at_greedy list_all_iff split: if_splits
      dest: set_takeWhileD match_unit_SomeD)

lemma re_match_at_is_match:
  assumes "re_match_at s = Some (ds, u)"
  shows "is_match_at s ds u"
proof -
  from assms have ds: "ds = takeWhile is_digit s" "ds \<noteq> []"
    and mu: "match_unit (dropWhile is_space (dropWhile is_digit s)) = Some u"
    by (auto simp: re_match_at_greedy split: if_splits)
  from match_unit_SomeD[OF mu] obtain rest where
    u: "u \<in> set units" and r: "dropWhile is_space (dropWhile is_digit s) = u @ rest"
    by (auto simp: prefix_def)
  let ?ws = "takeWhile is_space (dropWhile is_digit s)"
  have "s = ds @ ?ws @ u @ rest"
    using ds(1) r by (metis takeWhile_dropWhile_id)
  moreover have "list_all is_digit ds" using ds(1) by (auto simp: list_all_iff dest: set_takeWhileD)
  moreover have "list_all is_space ?ws" by (auto simp: list_all_iff dest: set_takeWhileD)
  ultimately show ?thesis using ds(2) u unfolding is_match_at_def by blast
qed


lemma units_cases:
  "u \<in> set units \<Longrightarrow>
     u = ''day'' \<or> u = ''days'' \<or> u = ''week'' \<or> u = ''weeks'' \<or> u = ''month'' \<or> u = ''months''"
  by (simp add: units_def)

lemma match_unit_append:
  assumes "u \<in> set units"
  shows "\<exists>u'. match_unit (u @ rest) = Some u' \<and> unit_factor u' = unit_factor u"
proof -
  have "match_unit (''day'' @ rest) = Some ''day''"
       "match_unit (''days'' @ rest) = Some ''day''"
       "match_unit (''week'' @ rest) = Some ''week''"
       "match_unit (''weeks'' @ rest) = Some ''week''"
       "match_unit (''month'' @ rest) = Some ''month''"
       "match_unit (''months'' @ rest) = Some ''month''"
    by (simp_all add: match_unit_def units_def)
  moreover have "unit_factor ''day'' = unit_factor ''days''"
    "unit_factor ''week'' = unit_factor ''weeks''" "unit_factor ''month'' = unit_factor ''months''"
    by (simp_all add: unit_factor_def)
  ultimately show ?thesis using units_cases[OF assms] by metis
qed

lemma code_factor:
  "list_all (\<lambda>u. (if str_contains ''week'' u then 7
                  else if str_contains ''month'' u then 30 else 1) = unit_factor u) units"
  by code_simp

lemma code_factor_unit:
  "u \<in> set units \<Longrightarrow>
     (if str_contains ''week'' u then num * 7
      else if str_contains ''month'' u then num * 30 else num) = num * unit_factor u"
proof -
  assume "u \<in> set units"
  with code_factor have
    "(if str_contains ''week'' u then 7 else if str_contains ''month'' u then 30 else 1)
       = unit_factor u"
    by (simp add: list_all_iff)
  then show ?thesis by (auto split: if_splits)
qed

lemma takeWhile_run:
  assumes "list_all P xs" "ys = [] \<or> \<not> P (hd ys)"
  shows "takeWhile P (xs @ ys) = xs" "dropWhile P (xs @ ys) = ys"
proof -
  have a: "\<And>x. x \<in> set xs \<Longrightarrow> P x" using assms(1) by (simp add: list_all_iff)
  have b: "takeWhile P ys = []" "dropWhile P ys = ys" using assms(2) by (cases ys; auto)+
  show "takeWhile P (xs @ ys) = xs" using a b by (simp add: takeWhile_append2)
  show "dropWhile P (xs @ ys) = ys" using a b by (simp add: dropWhile_append2)
qed

lemma is_match_re_match:
  assumes "is_match_at s ds u"
  shows "\<exists>u'. re_match_at s = Some (ds, u') \<and> unit_factor u' = unit_factor u"
proof -
  from assms obtain ws rest where s: "s = ds @ ws @ u @ rest" and ne: "ds \<noteq> []"
    and d: "list_all is_digit ds" and w: "list_all is_space ws" and u: "u \<in> set units"
    unfolding is_match_at_def by blast
  from unit_head[OF u] have uh: "u \<noteq> []" "\<not> is_digit (hd u)" "\<not> is_space (hd u)" by simp_all
  have h1: "\<not> is_space (hd (u @ rest))" using uh by simp
  have h2: "\<not> is_digit (hd (ws @ u @ rest))"
  proof (cases ws)
    case Nil
    then show ?thesis using uh by simp
  next
    case (Cons c cs)
    with w have "is_space c" by simp
    then show ?thesis using Cons digit_not_space by auto
  qed
  have t1: "takeWhile is_digit s = ds" "dropWhile is_digit s = ws @ u @ rest"
    using takeWhile_run[OF d, of "ws @ u @ rest"] h2 s by simp_all
  have t2: "dropWhile is_space (ws @ u @ rest) = u @ rest"
    using takeWhile_run(2)[OF w, of "u @ rest"] h1 by simp
  from match_unit_append[OF u, of rest] obtain u' where
    "match_unit (u @ rest) = Some u'" "unit_factor u' = unit_factor u" by blast
  then show ?thesis using t1 t2 ne by (simp add: re_match_at_greedy)
qed

lemma no_match_re_match:
  "(\<forall>ds u. \<not> is_match_at s ds u) \<longleftrightarrow> re_match_at s = None"
proof
  assume a: "\<forall>ds u. \<not> is_match_at s ds u"
  show "re_match_at s = None"
  proof (cases "re_match_at s")
    case None then show ?thesis .
  next
    case (Some g)
    then have "is_match_at s (fst g) (snd g)" using re_match_at_is_match[of s "fst g" "snd g"] by simp
    with a show ?thesis by blast
  qed
next
  assume "re_match_at s = None"
  then show "\<forall>ds u. \<not> is_match_at s ds u" using is_match_re_match by fastforce
qed

lemma first_match_search:
  assumes "is_first_match s p ds u"
  shows "\<exists>u'. re_search s = Some (ds, u') \<and> u' \<in> set units \<and> unit_factor u' = unit_factor u"
proof -
  from assms have p: "p \<le> length s" and m: "is_match_at (drop p s) ds u"
    and f: "\<forall>q<p. \<forall>ds' u'. \<not> is_match_at (drop q s) ds' u'"
    unfolding is_first_match_def by blast+
  from is_match_re_match[OF m] obtain u' where
    u': "re_match_at (drop p s) = Some (ds, u')" "unit_factor u' = unit_factor u" by blast
  have "\<forall>q<p. re_match_at (drop q s) = None" using f no_match_re_match by blast
  from re_search_first[OF p u'(1) this] u'(2) re_match_at_digits[OF u'(1)]
  show ?thesis by blast
qed

lemma no_match_search: "\<not> has_match s \<longleftrightarrow> re_search s = None"
proof
  assume a: "\<not> has_match s"
  show "re_search s = None"
  proof (cases "re_search s")
    case None then show ?thesis .
  next
    case (Some g)
    from re_search_SomeD[OF this] obtain p where "p \<le> length s" "re_match_at (drop p s) = Some g"
      by blast
    then have "p \<le> length s \<and> is_match_at (drop p s) (fst g) (snd g)"
      using re_match_at_is_match[of "drop p s" "fst g" "snd g"] by simp
    with a show ?thesis unfolding has_match_def by blast
  qed
next
  assume n: "re_search s = None"
  show "\<not> has_match s"
  proof
    assume "has_match s"
    then obtain p ds u where "p \<le> length s" "is_match_at (drop p s) ds u"
      unfolding has_match_def by blast
    with re_search_NoneD[OF n this(1)] no_match_re_match show False by blast
  qed
qed


subsection \<open>The duration parser\<close>

lemma str_contains_sublist: "str_contains sub s \<longleftrightarrow> sublist sub s"
  by (induction s) (auto simp: sublist_Cons_right)

lemma digit_val_range: "is_digit c \<Longrightarrow> 0 \<le> digit_val c \<and> digit_val c \<le> 9"
  by (auto simp: is_digit_def digit_val_def Let_def)

lemma foldl_decimal_nonneg:
  "list_all is_digit ds \<Longrightarrow> 0 \<le> acc \<Longrightarrow> 0 \<le> foldl (\<lambda>a c. 10 * a + digit_val c) acc ds"
proof (induction ds arbitrary: acc)
  case Nil
  then show ?case by simp
next
  case (Cons c cs)
  then have "0 \<le> 10 * acc + digit_val c" using digit_val_range[of c] by simp
  with Cons show ?case by simp
qed

lemma decimal_nonneg: "list_all is_digit ds \<Longrightarrow> 0 \<le> decimal ds"
  unfolding decimal_def by (rule foldl_decimal_nonneg) simp_all

lemma unit_factor_pos: "1 \<le> unit_factor u"
  by (simp add: unit_factor_def)

lemma plus_days_ok:
  "1 \<le> ordinal dt \<Longrightarrow> 0 \<le> n \<Longrightarrow> ordinal dt + n \<le> max_ordinal \<Longrightarrow>
     plus_days dt n = Inr (dt\<lparr>ordinal := ordinal dt + n\<rparr>)"
  by (simp add: plus_days_def timedelta_days_def max_ordinal_def)

lemma plus_days_InrD:
  "plus_days dt n = Inr d \<Longrightarrow>
     d = dt\<lparr>ordinal := ordinal dt + n\<rparr> \<and> 1 \<le> ordinal dt + n \<and> ordinal dt + n \<le> max_ordinal"
  by (auto simp: plus_days_def timedelta_days_def split: if_splits)

lemma parse_match:
  assumes "re_search (lower goal) = Some (ds, u)"
  shows "parse_goal_duration now goal =
     (if length ds > int_max_str_digits then Inl ValueError
      else case plus_days now (decimal ds * unit_factor u) of
             Inl e \<Rightarrow> Inl e
           | Inr deadline \<Rightarrow> Inr (decimal ds * unit_factor u, deadline))"
proof -
  from re_search_SomeD[OF assms] obtain p where "re_match_at (drop p (lower goal)) = Some (ds, u)"
    by blast
  then have "u \<in> set units" using re_match_at_digits by blast
  from code_factor_unit[OF this] show ?thesis
    using assms by (simp add: parse_goal_duration_def py_int_def Let_def)
qed

lemma parse_no_match:
  assumes "re_search (lower goal) = None"
  shows "parse_goal_duration now goal =
     (case plus_days now (fallback_days (lower goal)) of
        Inl e \<Rightarrow> Inl e
      | Inr deadline \<Rightarrow> Inr (fallback_days (lower goal), deadline))"
  using assms by (auto simp: parse_goal_duration_def fallback_days_def Let_def split: sum.splits)

lemma search_digits:
  assumes "re_search s = Some (ds, u)"
  shows "ds \<noteq> [] \<and> list_all is_digit ds \<and> u \<in> set units"
proof -
  from re_search_SomeD[OF assms] obtain p where "re_match_at (drop p s) = Some (ds, u)" by blast
  then show ?thesis by (rule re_match_at_digits)
qed

text \<open>
  Claim C2, as amended. When the lower-cased goal holds the duration pattern, its first
  match being the digits \<open>ds\<close> and the unit \<open>u\<close>, when \<open>ds\<close> has at most 4300 digits and
  the deadline is a day of the years 1..9999, \<^verbatim>\<open>parse_goal_duration\<close> returns the integer
  times 7 for a week, times 30 for a month, as it is for a day, and the deadline is the
  clock reading moved on by that many days. When the goal holds no such pattern, it
  returns 14 days if the lower-cased goal contains "launch", "ship" or "release" and
  30 days if not, with the deadline computed in the same way.
\<close>

theorem parse_goal_duration_spec:
  "(is_first_match (lower goal) p ds u \<and> length ds \<le> int_max_str_digits
      \<and> 1 \<le> ordinal now \<and> ordinal now + decimal ds * unit_factor u \<le> max_ordinal
    \<longrightarrow> parse_goal_duration now goal =
          Inr (decimal ds * unit_factor u,
               now\<lparr>ordinal := ordinal now + decimal ds * unit_factor u\<rparr>))
   \<and> (\<not> has_match (lower goal) \<and> 1 \<le> ordinal now \<and> ordinal now + 30 \<le> max_ordinal
    \<longrightarrow> parse_goal_duration now goal =
          (if sublist ''launch'' (lower goal) \<or> sublist ''ship'' (lower goal)
              \<or> sublist ''release'' (lower goal)
           then Inr (14, now\<lparr>ordinal := ordinal now + 14\<rparr>)
           else Inr (30, now\<lparr>ordinal := ordinal now + 30\<rparr>)))"
proof (intro conjI impI)
  assume a: "is_first_match (lower goal) p ds u \<and> length ds \<le> int_max_str_digits
      \<and> 1 \<le> ordinal now \<and> ordinal now + decimal ds * unit_factor u \<le> max_ordinal"
  then obtain u' where s: "re_search (lower goal) = Some (ds, u')"
    and f: "unit_factor u' = unit_factor u"
    using first_match_search by blast
  have "0 \<le> decimal ds" using search_digits[OF s] decimal_nonneg by blast
  then have "0 \<le> decimal ds * unit_factor u" using unit_factor_pos[of u] by simp
  with a have "plus_days now (decimal ds * unit_factor u) =
     Inr (now\<lparr>ordinal := ordinal now + decimal ds * unit_factor u\<rparr>)"
    by (simp add: plus_days_ok)
  with a f show "parse_goal_duration now goal =
          Inr (decimal ds * unit_factor u,
               now\<lparr>ordinal := ordinal now + decimal ds * unit_factor u\<rparr>)"
    by (simp add: parse_match[OF s])
next
  assume a: "\<not> has_match (lower goal) \<and> 1 \<le> ordinal now \<and> ordinal now + 30 \<le> max_ordinal"
  then have s: "re_search (lower goal) = None" using no_match_search by blast
  have "plus_days now 14 = Inr (now\<lparr>ordinal := ordinal now + 14\<rparr>)"
       "plus_days now 30 = Inr (now\<lparr>ordinal := ordinal now + 30\<rparr>)"
    using a by (simp_all add: plus_days_ok)
  then show "parse_goal_duration now goal =
          (if sublist ''launch'' (lower goal) \<or> sublist ''ship'' (lower goal)
              \<or> sublist ''release'' (lower goal)
           then Inr (14, now\<lparr>ordinal := ordinal now + 14\<rparr>)
           else Inr (30, now\<lparr>ordinal := ordinal now + 30\<rparr>))"
    by (simp add: parse_no_match[OF s] fallback_days_def str_contains_sublist)
qed

text \<open>
  Claim C6, as amended. Whenever \<^verbatim>\<open>parse_goal_duration\<close> returns, the number of days is
  at least 0, and it is 0 exactly when the pattern was found with an integer of value 0;
  in every other case it is at least 1.
\<close>

theorem parse_goal_duration_nonneg:
  assumes "parse_goal_duration now goal = Inr (days, deadline)"
  shows "0 \<le> days \<and>
         (days = 0 \<longleftrightarrow> (\<exists>ds u. re_search (lower goal) = Some (ds, u) \<and> decimal ds = 0))"
proof (cases "re_search (lower goal)")
  case None
  with assms have "days = fallback_days (lower goal)"
    by (auto simp: parse_no_match split: sum.splits)
  then show ?thesis using None by (simp add: fallback_days_def)
next
  case (Some g)
  obtain ds u where g: "g = (ds, u)" by (cases g)
  with Some have s: "re_search (lower goal) = Some (ds, u)" by simp
  from assms have d: "days = decimal ds * unit_factor u"
    by (auto simp: parse_match[OF s] split: if_splits sum.splits)
  have "0 \<le> decimal ds" using search_digits[OF s] decimal_nonneg by blast
  moreover have "1 \<le> unit_factor u" by (rule unit_factor_pos)
  ultimately show ?thesis using d s by auto
qed

text \<open>The amended claim C2 at the goals "2 Weeks to ship" and "Write a book".\<close>

theorem parse_goal_duration_spec_witness:
  "is_first_match (lower ''2 Weeks to ship'') 0 ''2'' ''weeks''
   \<and> length ''2'' \<le> int_max_str_digits
   \<and> parse_goal_duration \<lparr>ordinal = 739000, tod_us = 0\<rparr> ''2 Weeks to ship''
       = Inr (14, \<lparr>ordinal = 739014, tod_us = 0\<rparr>)
   \<and> \<not> has_match (lower ''Write a book'')
   \<and> parse_goal_duration \<lparr>ordinal = 739000, tod_us = 0\<rparr> ''Write a book''
       = Inr (30, \<lparr>ordinal = 739030, tod_us = 0\<rparr>)"
proof -
  have l: "lower ''2 Weeks to ship'' = ''2 weeks to ship''" by code_simp
  have m: "is_match_at ''2 weeks to ship'' ''2'' ''weeks''"
    unfolding is_match_at_def
    by (rule exI[of _ "'' ''"], rule exI[of _ "'' to ship''"])
       (simp add: units_def is_digit_def is_space_def)
  have f: "is_first_match (lower ''2 Weeks to ship'') 0 ''2'' ''weeks''"
    using m by (simp add: is_first_match_def l)
  have d: "decimal ''2'' * unit_factor ''weeks'' = 14" by code_simp
  have n: "length ''2'' \<le> int_max_str_digits" by (simp add: int_max_str_digits_def)
  have a: "parse_goal_duration \<lparr>ordinal = 739000, tod_us = 0\<rparr> ''2 Weeks to ship''
       = Inr (14, \<lparr>ordinal = 739014, tod_us = 0\<rparr>)"
    using parse_goal_duration_spec
      [of "''2 Weeks to ship''" 0 "''2''" "''weeks''" "\<lparr>ordinal = 739000, tod_us = 0\<rparr>"]
      f n d
    by (simp add: max_ordinal_def)
  have s: "re_search (lower ''Write a book'') = None" by code_simp
  then have h: "\<not> has_match (lower ''Write a book'')" using no_match_search by blast
  have c: "\<not> sublist ''launch'' (lower ''Write a book'')"
    "\<not> sublist ''ship'' (lower ''Write a book'')"
    "\<not> sublist ''release'' (lower ''Write a book'')"
    unfolding str_contains_sublist[symmetric] by code_simp+
  have b: "parse_goal_duration \<lparr>ordinal = 739000, tod_us = 0\<rparr> ''Write a book''
       = Inr (30, \<lparr>ordinal = 739030, tod_us = 0\<rparr>)"
    using parse_goal_duration_spec
      [of "''Write a book''" 0 "''2''" "''weeks''" "\<lparr>ordinal = 739000, tod_us = 0\<rparr>"]
      h c
    by (simp add: max_ordinal_def)
  from f n a h b show ?thesis by blast
qed

text \<open>Claim C2 as stated fails: on "9999999 days" the deadline is beyond the year 9999
  and the function raises instead of returning 9999999 days.\<close>

theorem parse_goal_duration_overflow:
  "parse_goal_duration \<lparr>ordinal = 739000, tod_us = 0\<rparr> ''9999999 days'' = Inl OverflowError"
  by code_simp

text \<open>The amended claim C6 at the goal "ship in 0 days".\<close>

theorem parse_goal_duration_nonneg_witness:
  "parse_goal_duration \<lparr>ordinal = 739000, tod_us = 0\<rparr> ''ship in 0 days''
     = Inr (0, \<lparr>ordinal = 739000, tod_us = 0\<rparr>)
   \<and> (\<exists>ds u. re_search (lower ''ship in 0 days'') = Some (ds, u) \<and> decimal ds = 0)"
proof -
  have h: "parse_goal_duration \<lparr>ordinal = 739000, tod_us = 0\<rparr> ''ship in 0 days''
     = Inr (0, \<lparr>ordinal = 739000, tod_us = 0\<rparr>)"
    by code_simp
  from parse_goal_duration_nonneg[OF h] h show ?thesis by simp
qed

text \<open>Claim C6 as stated fails: the goal "0 days" gives a duration of 0 days.\<close>

theorem parse_goal_duration_zero_days:
  "parse_goal_duration \<lparr>ordinal = 739000, tod_us = 0\<rparr> ''0 days''
     = Inr (0, \<lparr>ordinal = 739000, tod_us = 0\<rparr>)"
  by code_simp

subsection \<open>The timeline loop\<close>

lemma date_iso_plus:
  "plus_days dt n = Inr d \<Longrightarrow> date_iso d = isoformat (ordinal dt + n)"
  by (auto simp: date_iso_def dest: plus_days_InrD)

lemma py_get_nth: "0 \<le> i \<Longrightarrow> i < int (length xs) \<Longrightarrow> py_get xs i = Inr (xs ! nat i)"
  by (simp add: py_get_def)

lemma build_tasks_length:
  "build_tasks start p chosen i rest = Inr ts \<Longrightarrow> length ts = length rest"
proof (induction rest arbitrary: i ts)
  case Nil
  then show ?case by simp
next
  case (Cons ph rest)
  obtain t desc where ph: "ph = (t, desc)" by (cases ph)
  from Cons.prems obtain ts' where "build_tasks start p chosen (i + 1) rest = Inr ts'"
    "length ts = Suc (length ts')"
    unfolding ph by (auto split: sum.splits)
  with Cons.IH show ?case by auto
qed

lemma build_tasks_nth:
  assumes "build_tasks start p chosen i rest = Inr ts" "1 \<le> i"
    "i - 1 + int (length rest) \<le> int (length chosen)" "k < length rest"
  shows "ts ! k = phase_task (ordinal start) p chosen (i + int k) (rest ! k)
         \<and> 1 \<le> ordinal start + (i + int k - 1) * p
         \<and> ordinal start + (i + int k) * p - 1 \<le> max_ordinal"
  using assms
proof (induction rest arbitrary: i ts k)
  case Nil
  then show ?case by simp
next
  case (Cons ph rest)
  obtain t desc where ph: "ph = (t, desc)" by (cases ph)
  from Cons.prems(1) obtain s e dep ts' where
    s: "plus_days start ((i - 1) * p) = Inr s" and
    e: "plus_days start (i * p - 1) = Inr e" and
    dep: "(if i = 1 then Inr [] else map_sum id fst (py_get chosen (i - 2))) = Inr dep" and
    r: "build_tasks start p chosen (i + 1) rest = Inr ts'" and
    ts: "ts = \<lparr>title = t, description = desc, start_date = date_iso s,
                end_date = date_iso e, depends_on = dep, llm_note = None\<rparr> # ts'"
    unfolding ph by (auto split: sum.splits)
  show ?case
  proof (cases k)
    case 0
    have d: "dep = (if i = 1 then [] else fst (chosen ! nat (i - 2)))"
    proof (cases "i = 1")
      case True
      with dep show ?thesis by simp
    next
      case False
      with Cons.prems(2,3) have "0 \<le> i - 2" "i - 2 < int (length chosen)" by simp_all
      then have "py_get chosen (i - 2) = Inr (chosen ! nat (i - 2))" by (rule py_get_nth)
      with dep False show ?thesis by auto
    qed
    from plus_days_InrD[OF s] plus_days_InrD[OF e] date_iso_plus[OF s] date_iso_plus[OF e]
    show ?thesis using 0 ts d ph by (simp add: phase_task_def add_diff_eq)
  next
    case (Suc k')
    have "ts' ! k' = phase_task (ordinal start) p chosen (i + 1 + int k') (rest ! k')
         \<and> 1 \<le> ordinal start + (i + 1 + int k' - 1) * p
         \<and> ordinal start + (i + 1 + int k') * p - 1 \<le> max_ordinal"
      using Cons.IH[OF r, of k'] Cons.prems(2,3,4) Suc by simp
    then show ?thesis using Suc ts by (simp add: add.commute add.left_commute)
  qed
qed

lemma build_tasks_ok:
  assumes "1 \<le> i" "1 \<le> p" "1 \<le> ordinal start"
    "i - 1 + int (length rest) \<le> int (length chosen)"
    "ordinal start + (i - 1 + int (length rest)) * p - 1 \<le> max_ordinal"
  shows "\<exists>ts. build_tasks start p chosen i rest = Inr ts"
  using assms
proof (induction rest arbitrary: i)
  case Nil
  then show ?case by simp
next
  case (Cons ph rest)
  obtain t desc where ph: "ph = (t, desc)" by (cases ph)
  have ip: "i * p \<le> (i - 1 + int (length (ph # rest))) * p"
    using Cons.prems(2) by (intro mult_right_mono) simp_all
  have "0 \<le> (i - 1) * p" using Cons.prems(1,2) by simp
  moreover have "(i - 1) * p \<le> i * p - 1" using Cons.prems(2) by (simp add: algebra_simps)
  ultimately have a: "0 \<le> (i - 1) * p" "0 \<le> i * p - 1"
    "ordinal start + (i - 1) * p \<le> max_ordinal" "ordinal start + (i * p - 1) \<le> max_ordinal"
    using ip Cons.prems(5) by simp_all
  have s: "plus_days start ((i - 1) * p) = Inr (start\<lparr>ordinal := ordinal start + (i - 1) * p\<rparr>)"
    using a Cons.prems(3) by (intro plus_days_ok) simp_all
  have e: "plus_days start (i * p - 1) = Inr (start\<lparr>ordinal := ordinal start + (i * p - 1)\<rparr>)"
    using a Cons.prems(3) by (intro plus_days_ok) simp_all
  have d: "\<exists>dep. (if i = 1 then Inr [] else map_sum id fst (py_get chosen (i - 2))) = Inr dep"
  proof (cases "i = 1")
    case True
    then show ?thesis by simp
  next
    case False
    with Cons.prems(1,4) have "0 \<le> i - 2" "i - 2 < int (length chosen)" by simp_all
    then have "py_get chosen (i - 2) = Inr (chosen ! nat (i - 2))" by (rule py_get_nth)
    with False show ?thesis by simp
  qed
  have "\<exists>ts. build_tasks start p chosen (i + 1) rest = Inr ts"
    using Cons.prems by (intro Cons.IH) (simp_all add: algebra_simps)
  with s e d show ?case unfolding ph by auto
qed

lemma allocate_InrD:
  assumes "allocate start days chosen = Inr (p, ts)"
  shows "chosen \<noteq> []" "p = max 1 (days div int (length chosen))" "1 \<le> p"
    "length ts = length chosen"
    "k < length chosen \<Longrightarrow> ts ! k = phase_task (ordinal start) p chosen (int k + 1) (chosen ! k)"
    "k < length chosen \<Longrightarrow> 1 \<le> ordinal start + int k * p
        \<and> ordinal start + (int k + 1) * p - 1 \<le> max_ordinal"
proof -
  from assms show ne: "chosen \<noteq> []"
    by (auto simp: allocate_def floordiv_def split: if_splits)
  from assms ne show p: "p = max 1 (days div int (length chosen))"
    by (auto simp: allocate_def floordiv_def Let_def split: sum.splits)
  then show "1 \<le> p" by simp
  from assms ne p have b: "build_tasks start p chosen 1 chosen = Inr ts"
    by (auto simp: allocate_def floordiv_def Let_def split: sum.splits)
  then show "length ts = length chosen" by (rule build_tasks_length)
  {
    assume k: "k < length chosen"
    from build_tasks_nth[OF b _ _ k]
    have "ts ! k = phase_task (ordinal start) p chosen (1 + int k) (chosen ! k)
         \<and> 1 \<le> ordinal start + (1 + int k - 1) * p
         \<and> ordinal start + (1 + int k) * p - 1 \<le> max_ordinal" by simp
    then show "ts ! k = phase_task (ordinal start) p chosen (int k + 1) (chosen ! k)"
      and "1 \<le> ordinal start + int k * p
        \<and> ordinal start + (int k + 1) * p - 1 \<le> max_ordinal"
      by (simp_all add: add.commute)
  }
qed

lemma allocate_ok:
  assumes "chosen \<noteq> []" "1 \<le> ordinal start"
    "ordinal start + int (length chosen) * max 1 (days div int (length chosen)) - 1 \<le> max_ordinal"
  shows "\<exists>ts. allocate start days chosen = Inr (max 1 (days div int (length chosen)), ts)"
proof -
  let ?p = "max 1 (days div int (length chosen))"
  have "\<exists>ts. build_tasks start ?p chosen 1 chosen = Inr ts"
    using assms by (intro build_tasks_ok) simp_all
  then show ?thesis using assms(1) by (auto simp: allocate_def floordiv_def Let_def)
qed

lemma allocate_eq_map:
  assumes "allocate start days chosen = Inr (p, ts)"
  shows "ts = map (\<lambda>k. phase_task (ordinal start) p chosen (int k + 1) (chosen ! k))
               [0..<length chosen]"
  using allocate_InrD(4,5)[OF assms] by (auto intro: nth_equalityI)


lemma choose_phases_length: "length (choose_phases days) = (if 10 \<le> days then 6 else 4)"
  by (simp add: choose_phases_def phases_def)

lemma choose_phases_ne: "choose_phases days \<noteq> []"
  using choose_phases_length[of days] by (auto split: if_splits)

lemma marketing_trigger_sublist:
  "marketing_trigger goal \<longleftrightarrow>
     sublist ''product'' (lower goal) \<and> sublist ''marketing'' (lower goal)"
  by (simp add: marketing_trigger_def str_contains_sublist)

lemma mock_InrD:
  assumes "mock_llm_reasoning now start goal = Inr ts"
  shows "\<exists>days deadline base.
     parse_goal_duration now goal = Inr (days, deadline)
     \<and> allocate start days (choose_phases days) = Inr (per_task days, base)
     \<and> ts = (if marketing_trigger goal
             then list_insert base (int (length base) - 1)
                    (marketing_task (ordinal start) (per_task days) (choose_phases days))
             else base)
     \<and> (marketing_trigger goal \<longrightarrow>
          1 \<le> ordinal start + per_task days
          \<and> ordinal start + 2 * per_task days \<le> max_ordinal)"
proof -
  from assms obtain days deadline where
    p: "parse_goal_duration now goal = Inr (days, deadline)"
    by (auto simp: mock_llm_reasoning_def split: sum.splits)
  let ?ch = "choose_phases days"
  from assms p obtain q base where a: "allocate start days ?ch = Inr (q, base)"
    by (auto simp: mock_llm_reasoning_def Let_def split: sum.splits)
  have q: "q = per_task days" using allocate_InrD(2)[OF a] by (simp add: per_task_def)
  show ?thesis
  proof (cases "marketing_trigger goal")
    case False
    with assms p a q show ?thesis by (auto simp: mock_llm_reasoning_def Let_def)
  next
    case True
    from assms p a True obtain s e first where
      s: "plus_days start q = Inr s" and e: "plus_days start (q * 2) = Inr e" and
      f: "py_get ?ch 0 = Inr first" and
      t: "ts = list_insert base (int (length base) - 1)
                 \<lparr>title = ''Marketing prep'',
                  description = ''Prepare assets, landing page, email sequences and socials.'',
                  start_date = date_iso s, end_date = date_iso e,
                  depends_on = fst first, llm_note = None\<rparr>"
      by (auto simp: mock_llm_reasoning_def Let_def split: sum.splits)
    have "first = hd ?ch" using f choose_phases_ne[of days]
      by (cases ?ch) (auto simp: py_get_def split: if_splits)
    with t date_iso_plus[OF s] date_iso_plus[OF e]
    have "ts = list_insert base (int (length base) - 1) (marketing_task (ordinal start) q ?ch)"
      by (simp add: marketing_task_def mult.commute)
    moreover have "1 \<le> ordinal start + q" "ordinal start + 2 * q \<le> max_ordinal"
      using plus_days_InrD[OF s] plus_days_InrD[OF e] by (simp_all add: mult.commute)
    ultimately show ?thesis using p a q True by auto
  qed
qed

lemma mock_ok:
  assumes p: "parse_goal_duration now goal = Inr (days, deadline)"
    and s: "1 \<le> ordinal start"
    and r: "ordinal start + int (length (choose_phases days)) * per_task days - 1 \<le> max_ordinal"
  shows "\<exists>base. allocate start days (choose_phases days) = Inr (per_task days, base)
     \<and> mock_llm_reasoning now start goal =
         Inr (if marketing_trigger goal
              then list_insert base (int (length base) - 1)
                     (marketing_task (ordinal start) (per_task days) (choose_phases days))
              else base)"
proof -
  let ?ch = "choose_phases days" and ?q = "per_task days"
  from allocate_ok[OF choose_phases_ne s, of days days] r obtain base where
    a: "allocate start days ?ch = Inr (?q, base)" by (auto simp: per_task_def)
  have q1: "1 \<le> ?q" by (simp add: per_task_def)
  have "4 \<le> int (length ?ch)" by (simp add: choose_phases_length)
  then have "4 * ?q \<le> int (length ?ch) * ?q" using q1 by (intro mult_right_mono) simp_all
  then have "ordinal start + 2 * ?q \<le> max_ordinal" using r q1 by linarith
  then have s1: "plus_days start ?q = Inr (start\<lparr>ordinal := ordinal start + ?q\<rparr>)"
    and e1: "plus_days start (?q * 2) = Inr (start\<lparr>ordinal := ordinal start + ?q * 2\<rparr>)"
    using q1 s by (simp_all add: plus_days_ok)
  have f: "py_get ?ch 0 = Inr (hd ?ch)" using choose_phases_ne[of days]
    by (cases ?ch) (auto simp: py_get_def)
  show ?thesis
    using p a s1 e1 f
    by (auto simp: mock_llm_reasoning_def Let_def marketing_task_def date_iso_def mult.commute)
qed

subsection \<open>The deterministic pipeline\<close>

lemma list_insert_before_last:
  "xs \<noteq> [] \<Longrightarrow> list_insert xs (int (length xs) - 1) x = butlast xs @ [x, last xs]"
proof -
  assume ne: "xs \<noteq> []"
  then have "0 \<le> int (length xs) - 1" by (cases xs) simp_all
  then have "list_insert xs (int (length xs) - 1) x
      = take (length xs - 1) xs @ [x] @ drop (length xs - 1) xs"
    by (simp add: list_insert_def Let_def nat_diff_distrib')
  moreover have "drop (length xs - 1) xs = [last xs]" using ne
    by (metis append_butlast_last_id append_eq_conv_conj length_butlast)
  ultimately show ?thesis by (simp add: butlast_conv_take)
qed

lemma parse_days_indep:
  assumes "parse_goal_duration now goal = Inr (days, deadline)"
    "parse_goal_duration now' goal = Inr (days', deadline')"
  shows "days' = days"
proof (cases "re_search (lower goal)")
  case None
  with assms show ?thesis by (auto simp: parse_no_match split: sum.splits)
next
  case (Some g)
  obtain ds u where "g = (ds, u)" by (cases g)
  with Some have s: "re_search (lower goal) = Some (ds, u)" by simp
  from assms show ?thesis by (auto simp: parse_match[OF s] split: if_splits sum.splits)
qed



text \<open>
  Claim C1, as amended. Whenever \<^verbatim>\<open>parse_goal_duration\<close> returns a number of days for the
  goal, and the end date of the last phase, which is the start day plus the number of
  chosen phases times the days per task minus one, is a day of the years 1..9999,
  \<^verbatim>\<open>mock_llm_reasoning\<close> raises nothing and returns a non-empty list of tasks.
\<close>

theorem mock_llm_reasoning_total:
  assumes "parse_goal_duration now goal = Inr (days, deadline)"
    and "1 \<le> ordinal start"
    and "ordinal start
           + (if 10 \<le> days then 6 else 4) * max 1 (days div (if 10 \<le> days then 6 else 4)) - 1
         \<le> max_ordinal"
  shows "\<exists>tasks. mock_llm_reasoning now start goal = Inr tasks \<and> tasks \<noteq> []"
proof -
  have "ordinal start + int (length (choose_phases days)) * per_task days - 1 \<le> max_ordinal"
    using assms(3) by (cases "10 \<le> days") (simp_all add: per_task_def choose_phases_length)
  from mock_ok[OF assms(1,2) this] obtain base where
    a: "allocate start days (choose_phases days) = Inr (per_task days, base)" and
    m: "mock_llm_reasoning now start goal =
         Inr (if marketing_trigger goal
              then list_insert base (int (length base) - 1)
                     (marketing_task (ordinal start) (per_task days) (choose_phases days))
              else base)" by blast
  have "base \<noteq> []" using allocate_InrD(4)[OF a] choose_phases_ne[of days] by auto
  then show ?thesis using m by (auto simp: list_insert_before_last)
qed


text \<open>
  Claim C4. For every list of chosen phases and every duration, the timeline uses
  \<open>max 1 (days div length chosen)\<close> days per task, and the task of the \<open>i\<close>-th phase,
  counted from 1, starts on the start day plus \<open>(i - 1)\<close> times the days per task, ends
  on the start day plus \<open>i\<close> times the days per task minus one day, and depends on
  nothing for \<open>i = 1\<close> and on the title of phase \<open>i - 1\<close> of the chosen list otherwise.
\<close>

theorem allocate_tasks:
  assumes "allocate start days chosen = Inr (per_task_days, tasks)"
  shows "per_task_days = max 1 (days div int (length chosen))
     \<and> length tasks = length chosen
     \<and> (\<forall>i. 1 \<le> i \<and> i \<le> length chosen \<longrightarrow>
          tasks ! (i - 1) =
            \<lparr>title = fst (chosen ! (i - 1)), description = snd (chosen ! (i - 1)),
             start_date = isoformat (ordinal start + (int i - 1) * per_task_days),
             end_date = isoformat (ordinal start + int i * per_task_days - 1),
             depends_on = (if i = 1 then [] else fst (chosen ! (i - 2))),
             llm_note = None\<rparr>)"
proof (intro conjI allI impI)
  show "per_task_days = max 1 (days div int (length chosen))"
    by (rule allocate_InrD(2)[OF assms])
  show "length tasks = length chosen" by (rule allocate_InrD(4)[OF assms])
  fix i :: nat
  assume i: "1 \<le> i \<and> i \<le> length chosen"
  then have k: "i - 1 < length chosen" by arith
  have n: "nat (int i - 2) = i - 2" by simp
  have e: "int (i - 1) + 1 = int i" "(int (i - 1) + 1 = 1) = (i = 1)" using i by auto
  show "tasks ! (i - 1) =
            \<lparr>title = fst (chosen ! (i - 1)), description = snd (chosen ! (i - 1)),
             start_date = isoformat (ordinal start + (int i - 1) * per_task_days),
             end_date = isoformat (ordinal start + int i * per_task_days - 1),
             depends_on = (if i = 1 then [] else fst (chosen ! (i - 2))),
             llm_note = None\<rparr>"
    unfolding allocate_InrD(5)[OF assms k] phase_task_def e n by simp
qed

text \<open>
  Claim C5. When the lower-cased goal contains both "product" and "marketing", the
  returned list is the timeline with one more task, titled "Marketing prep", at the
  position just before the last task; it starts one task width after the start day,
  ends two task widths after it and depends on the title of the first chosen phase.
  In every other case the returned list is the timeline itself.
\<close>

theorem marketing_prep_inserted:
  assumes "mock_llm_reasoning now start goal_text = Inr tasks"
    and "parse_goal_duration now goal_text = Inr (days, deadline)"
    and "allocate start days (choose_phases days) = Inr (per_task_days, base)"
  shows "if sublist ''product'' (lower goal_text) \<and> sublist ''marketing'' (lower goal_text)
         then length tasks = length base + 1
              \<and> take (length base - 1) tasks = take (length base - 1) base
              \<and> tasks ! (length base - 1) =
                  \<lparr>title = ''Marketing prep'',
                   description = ''Prepare assets, landing page, email sequences and socials.'',
                   start_date = isoformat (ordinal start + per_task_days),
                   end_date = isoformat (ordinal start + 2 * per_task_days),
                   depends_on = fst (choose_phases days ! 0),
                   llm_note = None\<rparr>
              \<and> last tasks = last base
         else tasks = base"
proof -
  from mock_InrD[OF assms(1)] obtain days' deadline' base' where
    p: "parse_goal_duration now goal_text = Inr (days', deadline')" and
    a: "allocate start days' (choose_phases days') = Inr (per_task days', base')" and
    t: "tasks = (if marketing_trigger goal_text
             then list_insert base' (int (length base') - 1)
                    (marketing_task (ordinal start) (per_task days') (choose_phases days'))
             else base')" by blast
  from p assms(2) have d: "days' = days" by simp
  with a assms(3) have b: "base' = base" "per_task days = per_task_days" by simp_all
  have ne: "base \<noteq> []" using allocate_InrD(4)[OF assms(3)] choose_phases_ne[of days] by auto
  have h: "hd (choose_phases days) = choose_phases days ! 0"
    using choose_phases_ne[of days] by (simp add: hd_conv_nth)
  show ?thesis
  proof (cases "marketing_trigger goal_text")
    case False
    then have c: "\<not> (sublist ''product'' (lower goal_text)
                     \<and> sublist ''marketing'' (lower goal_text))"
      unfolding marketing_trigger_sublist .
    from False t b have "tasks = base" by simp
    then show ?thesis unfolding if_not_P[OF c] .
  next
    case True
    then have c: "sublist ''product'' (lower goal_text) \<and> sublist ''marketing'' (lower goal_text)"
      unfolding marketing_trigger_sublist .
    let ?m = "marketing_task (ordinal start) per_task_days (choose_phases days)"
    from True t d b ne have ts: "tasks = butlast base @ [?m, last base]"
      by (simp add: list_insert_before_last)
    have l: "length (butlast base) = length base - 1" by simp
    have "take (length base - 1) tasks = butlast base" unfolding ts using l by simp
    moreover have "tasks ! (length base - 1) = ?m" unfolding ts using l
      by (metis nth_append_length)
    moreover have "length tasks = length base + 1" unfolding ts using ne by simp
    moreover have "last tasks = last base" unfolding ts by simp
    moreover have "?m = \<lparr>title = ''Marketing prep'',
                   description = ''Prepare assets, landing page, email sequences and socials.'',
                   start_date = isoformat (ordinal start + per_task_days),
                   end_date = isoformat (ordinal start + 2 * per_task_days),
                   depends_on = fst (choose_phases days ! 0),
                   llm_note = None\<rparr>"
      using h by (simp add: marketing_task_def)
    ultimately show ?thesis unfolding if_P[OF c] by (simp add: butlast_conv_take)
  qed
qed

text \<open>
  Claim C9. Two runs of \<^verbatim>\<open>mock_llm_reasoning\<close> on the same goal text whose start readings
  fall on the same day return the same list of tasks, whatever the time of day and
  whatever the clock reading inside \<^verbatim>\<open>parse_goal_duration\<close>; in particular two runs at
  one fixed instant do.
\<close>

theorem mock_llm_reasoning_deterministic:
  assumes "mock_llm_reasoning now start goal_text = Inr tasks"
    and "mock_llm_reasoning now' start' goal_text = Inr tasks'"
    and "ordinal start' = ordinal start"
  shows "tasks' = tasks"
proof -
  from mock_InrD[OF assms(1)] obtain days deadline base where
    p: "parse_goal_duration now goal_text = Inr (days, deadline)" and
    a: "allocate start days (choose_phases days) = Inr (per_task days, base)" and
    t: "tasks = (if marketing_trigger goal_text
             then list_insert base (int (length base) - 1)
                    (marketing_task (ordinal start) (per_task days) (choose_phases days))
             else base)" by blast
  from mock_InrD[OF assms(2)] obtain days' deadline' base' where
    p': "parse_goal_duration now' goal_text = Inr (days', deadline')" and
    a': "allocate start' days' (choose_phases days') = Inr (per_task days', base')" and
    t': "tasks' = (if marketing_trigger goal_text
             then list_insert base' (int (length base') - 1)
                    (marketing_task (ordinal start') (per_task days') (choose_phases days'))
             else base')" by blast
  have d: "days' = days" by (rule parse_days_indep[OF p p'])
  have "base' = base"
    using allocate_eq_map[OF a] allocate_eq_map[OF a'] d assms(3) by simp
  with t t' d assms(3) show ?thesis by simp
qed

text \<open>
  Claim C10. In the list that \<^verbatim>\<open>mock_llm_reasoning\<close> returns, every task with a non-empty
  \<open>depends_on\<close> names the title of a task at a strictly smaller position, also when the
  "Marketing prep" task is inserted.
\<close>

theorem depends_on_earlier:
  assumes "mock_llm_reasoning now start goal_text = Inr tasks"
    and "j < length tasks" and "depends_on (tasks ! j) \<noteq> []"
  shows "\<exists>k<j. title (tasks ! k) = depends_on (tasks ! j)"
proof -
  from mock_InrD[OF assms(1)] obtain days deadline base where
    a: "allocate start days (choose_phases days) = Inr (per_task days, base)" and
    t: "tasks = (if marketing_trigger goal_text
             then list_insert base (int (length base) - 1)
                    (marketing_task (ordinal start) (per_task days) (choose_phases days))
             else base)" by blast
  let ?ch = "choose_phases days"
  let ?n = "length base"
  have len: "?n = length ?ch" by (rule allocate_InrD(4)[OF a])
  have n4: "4 \<le> ?n" using len by (simp add: choose_phases_length)
  then have ne: "base \<noteq> []" by auto
  have ti: "title (base ! k) = fst (?ch ! k)" if "k < ?n" for k
    using allocate_InrD(5)[OF a, of k] that len by (simp add: phase_task_def)
  have de: "depends_on (base ! k) = (if k = 0 then [] else fst (?ch ! (k - 1)))" if "k < ?n" for k
  proof -
    have "nat (int k + 1 - 2) = k - 1" by simp
    then show ?thesis using allocate_InrD(5)[OF a, of k] that len by (simp add: phase_task_def)
  qed
  have chain: "\<exists>k<j. title (base ! k) = depends_on (base ! j)"
    if "j < ?n" "depends_on (base ! j) \<noteq> []" for j
  proof -
    from that de[of j] have j0: "j \<noteq> 0" by (auto split: if_splits)
    then have "j - 1 < j" "j - 1 < ?n" using that(1) by simp_all
    moreover have "title (base ! (j - 1)) = depends_on (base ! j)"
      using ti[of "j - 1"] de[OF that(1)] j0 that(1) by simp
    ultimately show ?thesis by blast
  qed
  show ?thesis
  proof (cases "marketing_trigger goal_text")
    case False
    with t have "tasks = base" by simp
    with chain assms(2,3) show ?thesis by simp
  next
    case True
    let ?m = "marketing_task (ordinal start) (per_task days) ?ch"
    from True t ne have ts: "tasks = butlast base @ [?m, last base]"
      by (simp add: list_insert_before_last)
    have lb: "length (butlast base) = ?n - 1" by simp
    have low: "tasks ! k = base ! k" if "k < ?n - 1" for k
      unfolding ts using that lb by (simp add: nth_append nth_butlast)
    have mid: "tasks ! (?n - 1) = ?m" unfolding ts using lb by (metis nth_append_length)
    have top: "tasks ! ?n = base ! (?n - 1)"
    proof -
      have "tasks ! ?n = [?m, last base] ! (?n - length (butlast base))"
        unfolding ts using lb n4 by (simp add: nth_append)
      also have "?n - length (butlast base) = 1" using n4 by simp
      finally show ?thesis using ne by (simp add: last_conv_nth)
    qed
    have lt: "length tasks = ?n + 1" unfolding ts using n4 by simp
    consider "j < ?n - 1" | "j = ?n - 1" | "j = ?n" using assms(2) lt by linarith
    then show ?thesis
    proof cases
      case 1
      then have jn: "j < ?n" by simp
      from assms(3) low[OF 1] have "depends_on (base ! j) \<noteq> []" by simp
      from chain[OF jn this] obtain k where k: "k < j" "title (base ! k) = depends_on (base ! j)"
        by blast
      then have "k < ?n - 1" using 1 by simp
      with k low[OF 1] low[of k] show ?thesis by auto
    next
      case 2
      have "depends_on ?m = fst (?ch ! 0)" using choose_phases_ne[of days]
        by (simp add: marketing_task_def hd_conv_nth)
      also have "\<dots> = title (base ! 0)" using ti[of 0] ne by simp
      also have "\<dots> = title (tasks ! 0)" using low[of 0] n4 by simp
      finally have "title (tasks ! 0) = depends_on (tasks ! j)" using 2 mid by simp
      moreover have "0 < j" using 2 n4 by simp
      ultimately show ?thesis by blast
    next
      case 3
      have "depends_on (tasks ! j) = depends_on (base ! (?n - 1))" using 3 top by simp
      also have "\<dots> = fst (?ch ! (?n - 2))"
      proof -
        have "?n - 1 < ?n" "?n - 1 \<noteq> 0" "?n - 1 - 1 = ?n - 2" using n4 by arith+
        with de[of "?n - 1"] show ?thesis by presburger
      qed
      also have "\<dots> = title (base ! (?n - 2))" using ti[of "?n - 2"] n4 by simp
      also have "\<dots> = title (tasks ! (?n - 2))" using low[of "?n - 2"] n4 by simp
      finally have "title (tasks ! (?n - 2)) = depends_on (tasks ! j)" by simp
      moreover have "?n - 2 < j" using 3 n4 by simp
      ultimately show ?thesis by blast
    qed
  qed
qed

subsection \<open>The claims at concrete goals\<close>

text \<open>The amended claim C1 at the goal "Launch a product in 2 weeks".\<close>

theorem mock_llm_reasoning_total_witness:
  "parse_goal_duration \<lparr>ordinal = 739000, tod_us = 0\<rparr> ''Launch a product in 2 weeks''
     = Inr (14, \<lparr>ordinal = 739014, tod_us = 0\<rparr>)
   \<and> (\<exists>tasks. mock_llm_reasoning \<lparr>ordinal = 739000, tod_us = 0\<rparr>
                 \<lparr>ordinal = 739000, tod_us = 7\<rparr> ''Launch a product in 2 weeks'' = Inr tasks
               \<and> tasks \<noteq> [])"
proof -
  have p: "parse_goal_duration \<lparr>ordinal = 739000, tod_us = 0\<rparr> ''Launch a product in 2 weeks''
     = Inr (14, \<lparr>ordinal = 739014, tod_us = 0\<rparr>)"
    by code_simp
  have s: "1 \<le> ordinal \<lparr>ordinal = 739000, tod_us = 7\<rparr>" by simp
  have r: "ordinal \<lparr>ordinal = 739000, tod_us = 7\<rparr>
           + (if 10 \<le> (14::int) then 6 else 4) * max 1 (14 div (if 10 \<le> (14::int) then 6 else 4)) - 1
         \<le> max_ordinal"
    by (simp add: max_ordinal_def)
  show ?thesis by (intro conjI p mock_llm_reasoning_total[OF p s r])
qed

text \<open>Claim C1 as stated fails: with a duration of 9999999 days the deadline is beyond
  the year 9999 and \<^verbatim>\<open>mock_llm_reasoning\<close> raises.\<close>

theorem mock_llm_reasoning_overflow:
  "mock_llm_reasoning \<lparr>ordinal = 739000, tod_us = 0\<rparr> \<lparr>ordinal = 739000, tod_us = 7\<rparr>
     ''Launch a product in 9999999 days'' = Inl OverflowError"
  by code_simp


text \<open>Claim C4 at 14 days over the 6 phases: 2 days per task, here the second task.\<close>

theorem allocate_tasks_witness:
  "\<exists>tasks. allocate \<lparr>ordinal = 739000, tod_us = 7\<rparr> 14 phases = Inr (2, tasks)
     \<and> length tasks = 6
     \<and> title (tasks ! 1) = ''Design & plan''
     \<and> start_date (tasks ! 1) = isoformat (739000 + 1 * 2)
     \<and> end_date (tasks ! 1) = isoformat (739000 + 2 * 2 - 1)
     \<and> depends_on (tasks ! 1) = ''Define scope & success metrics''"
proof -
  let ?S = "\<lparr>ordinal = 739000, tod_us = 7\<rparr>"
  have l: "length phases = 6" by (simp add: phases_def)
  have "phases \<noteq> []" "1 \<le> ordinal ?S"
    "ordinal ?S + int (length phases) * max 1 (14 div int (length phases)) - 1 \<le> max_ordinal"
    by (simp_all add: l max_ordinal_def) (simp add: phases_def)
  from allocate_ok[OF this] obtain tasks where
    h: "allocate ?S 14 phases = Inr (2, tasks)" by (auto simp: l)
  from allocate_tasks[OF h] have n: "length tasks = 6"
    and a: "\<forall>i. 1 \<le> i \<and> i \<le> length phases \<longrightarrow>
          tasks ! (i - 1) =
            \<lparr>title = fst (phases ! (i - 1)), description = snd (phases ! (i - 1)),
             start_date = isoformat (ordinal ?S + (int i - 1) * 2),
             end_date = isoformat (ordinal ?S + int i * 2 - 1),
             depends_on = (if i = 1 then [] else fst (phases ! (i - 2))),
             llm_note = None\<rparr>"
    by (simp_all add: l)
  from a[rule_format, of 2] l have
    "tasks ! 1 =
       \<lparr>title = fst (phases ! 1), description = snd (phases ! 1),
        start_date = isoformat (739000 + 1 * 2), end_date = isoformat (739000 + 2 * 2 - 1),
        depends_on = fst (phases ! 0), llm_note = None\<rparr>"
    by simp
  moreover have "fst (phases ! 1) = ''Design & plan''"
    "fst (phases ! 0) = ''Define scope & success metrics''"
    by (simp_all add: phases_def)
  ultimately show ?thesis using h n by simp
qed

text \<open>Claim C5 at the goal "Launch a product and marketing campaign in 2 weeks".\<close>

theorem marketing_prep_inserted_witness:
  "sublist ''product'' (lower ''Launch a product and marketing campaign in 2 weeks'')
   \<and> sublist ''marketing'' (lower ''Launch a product and marketing campaign in 2 weeks'')
   \<and> (\<exists>tasks base.
         mock_llm_reasoning \<lparr>ordinal = 739000, tod_us = 0\<rparr> \<lparr>ordinal = 739000, tod_us = 7\<rparr>
           ''Launch a product and marketing campaign in 2 weeks'' = Inr tasks
         \<and> allocate \<lparr>ordinal = 739000, tod_us = 7\<rparr> 14 (choose_phases 14) = Inr (2, base)
         \<and> length tasks = length base + 1
         \<and> take (length base - 1) tasks = take (length base - 1) base
         \<and> title (tasks ! (length base - 1)) = ''Marketing prep''
         \<and> start_date (tasks ! (length base - 1)) = isoformat (739000 + 2)
         \<and> end_date (tasks ! (length base - 1)) = isoformat (739000 + 2 * 2)
         \<and> depends_on (tasks ! (length base - 1)) = ''Define scope & success metrics''
         \<and> last tasks = last base)"
proof -
  let ?g = "''Launch a product and marketing campaign in 2 weeks''"
  let ?N = "\<lparr>ordinal = 739000, tod_us = 0\<rparr>" and ?S = "\<lparr>ordinal = 739000, tod_us = 7\<rparr>"
  have p: "parse_goal_duration ?N ?g = Inr (14, \<lparr>ordinal = 739014, tod_us = 0\<rparr>)"
    by code_simp
  have c: "sublist ''product'' (lower ?g)" "sublist ''marketing'' (lower ?g)"
    unfolding str_contains_sublist[symmetric] by code_simp+
  have q: "per_task 14 = 2" by (simp add: per_task_def choose_phases_length)
  have s: "1 \<le> ordinal ?S" by simp
  have r: "ordinal ?S + int (length (choose_phases 14)) * per_task 14 - 1 \<le> max_ordinal"
    by (simp add: choose_phases_length q max_ordinal_def)
  from mock_ok[OF p s r] obtain base tasks where
    a: "allocate ?S 14 (choose_phases 14) = Inr (2, base)" and
    m: "mock_llm_reasoning ?N ?S ?g = Inr tasks"
    unfolding q by blast
  have f: "fst (choose_phases 14 ! 0) = ''Define scope & success metrics''"
    by (simp add: choose_phases_def phases_def)
  from marketing_prep_inserted[OF m p a] c f
  have "length tasks = length base + 1
         \<and> take (length base - 1) tasks = take (length base - 1) base
         \<and> title (tasks ! (length base - 1)) = ''Marketing prep''
         \<and> start_date (tasks ! (length base - 1)) = isoformat (739000 + 2)
         \<and> end_date (tasks ! (length base - 1)) = isoformat (739000 + 2 * 2)
         \<and> depends_on (tasks ! (length base - 1)) = ''Define scope & success metrics''
         \<and> last tasks = last base"
    by simp
  with c m a show ?thesis by blast
qed

text \<open>Claim C9 at the goal "Write a book", for two runs on the same day.\<close>

theorem mock_llm_reasoning_deterministic_witness:
  "ordinal \<lparr>ordinal = 739000, tod_us = 86399999999\<rparr> = ordinal \<lparr>ordinal = 739000, tod_us = 7\<rparr>
   \<and> (\<exists>tasks tasks'.
         mock_llm_reasoning \<lparr>ordinal = 739000, tod_us = 0\<rparr> \<lparr>ordinal = 739000, tod_us = 7\<rparr>
           ''Write a book'' = Inr tasks
         \<and> mock_llm_reasoning \<lparr>ordinal = 738999, tod_us = 5\<rparr>
             \<lparr>ordinal = 739000, tod_us = 86399999999\<rparr> ''Write a book'' = Inr tasks'
         \<and> tasks' = tasks)"
proof -
  let ?N = "\<lparr>ordinal = 739000, tod_us = 0\<rparr>" and ?S = "\<lparr>ordinal = 739000, tod_us = 7\<rparr>"
  let ?N' = "\<lparr>ordinal = 738999, tod_us = 5\<rparr>"
  let ?S' = "\<lparr>ordinal = 739000, tod_us = 86399999999\<rparr>"
  have p: "parse_goal_duration ?N ''Write a book'' = Inr (30, \<lparr>ordinal = 739030, tod_us = 0\<rparr>)"
    by code_simp
  have p': "parse_goal_duration ?N' ''Write a book'' = Inr (30, \<lparr>ordinal = 739029, tod_us = 5\<rparr>)"
    by code_simp
  have s: "1 \<le> ordinal ?S" "1 \<le> ordinal ?S'" by simp_all
  have r: "ordinal ?S + int (length (choose_phases 30)) * per_task 30 - 1 \<le> max_ordinal"
    "ordinal ?S' + int (length (choose_phases 30)) * per_task 30 - 1 \<le> max_ordinal"
    by (simp_all add: choose_phases_length per_task_def max_ordinal_def)
  from mock_ok[OF p s(1) r(1)] obtain tasks where
    m: "mock_llm_reasoning ?N ?S ''Write a book'' = Inr tasks" by blast
  from mock_ok[OF p' s(2) r(2)] obtain tasks' where
    m': "mock_llm_reasoning ?N' ?S' ''Write a book'' = Inr tasks'" by blast
  have o: "ordinal ?S' = ordinal ?S" by simp
  from mock_llm_reasoning_deterministic[OF m m' o] m m' o show ?thesis by blast
qed

text \<open>Claim C10 at the inserted task of the goal "Launch a product and marketing campaign
  in 2 weeks".\<close>

theorem depends_on_earlier_witness:
  "\<exists>tasks. mock_llm_reasoning \<lparr>ordinal = 739000, tod_us = 0\<rparr> \<lparr>ordinal = 739000, tod_us = 7\<rparr>
       ''Launch a product and marketing campaign in 2 weeks'' = Inr tasks
     \<and> 5 < length tasks
     \<and> title (tasks ! 5) = ''Marketing prep''
     \<and> depends_on (tasks ! 5) \<noteq> []
     \<and> (\<exists>k<5. title (tasks ! k) = depends_on (tasks ! 5))"
proof -
  let ?g = "''Launch a product and marketing campaign in 2 weeks''"
  let ?N = "\<lparr>ordinal = 739000, tod_us = 0\<rparr>" and ?S = "\<lparr>ordinal = 739000, tod_us = 7\<rparr>"
  let ?m = "marketing_task (ordinal ?S) (per_task 14) (choose_phases 14)"
  have p: "parse_goal_duration ?N ?g = Inr (14, \<lparr>ordinal = 739014, tod_us = 0\<rparr>)"
    by code_simp
  have c: "marketing_trigger ?g" by code_simp
  have s: "1 \<le> ordinal ?S" by simp
  have r: "ordinal ?S + int (length (choose_phases 14)) * per_task 14 - 1 \<le> max_ordinal"
    by (simp add: choose_phases_length per_task_def max_ordinal_def)
  from mock_ok[OF p s r] c obtain base where
    a: "allocate ?S 14 (choose_phases 14) = Inr (per_task 14, base)" and
    m: "mock_llm_reasoning ?N ?S ?g = Inr (list_insert base (int (length base) - 1) ?m)"
    by auto
  let ?ts = "list_insert base (int (length base) - 1) ?m"
  have n: "length base = 6" using allocate_InrD(4)[OF a] by (simp add: choose_phases_length)
  then have ne: "base \<noteq> []" by auto
  have ts: "?ts = butlast base @ [?m, last base]" by (rule list_insert_before_last[OF ne])
  have lb: "length (butlast base) = 5" using n by simp
  have l: "5 < length ?ts" unfolding ts using lb by simp
  have t5: "?ts ! 5 = ?m" unfolding ts using lb by (metis nth_append_length)
  have d: "depends_on (?ts ! 5) \<noteq> []" unfolding t5
    by (simp add: marketing_task_def choose_phases_def phases_def)
  have ti: "title (?ts ! 5) = ''Marketing prep''" unfolding t5 by (simp add: marketing_task_def)
  from depends_on_earlier[OF m l d] m l d ti show ?thesis by blast
qed

subsection \<open>The external path of \<^verbatim>\<open>generate_plan\<close>\<close>

lemma generate_plan_parsed:
  assumes "use_openai" "truthy key" "call_openai (build_prompt (strip goal_text)) = Inr reply"
    "json_loads reply = Inr v"
  shows "generate_plan key call_openai json_loads now1 start1 now2 start2 goal_text use_openai
         = Inr (Parsed v)"
  using assms by (simp add: generate_plan_def Let_def)

text \<open>
  Claim C8 at a reply that is JSON but no array of tasks: the reply \<^verbatim>\<open>{}\<close> parses to the
  empty object, and \<^verbatim>\<open>generate_plan\<close> returns that object instead of the annotated
  deterministic plan.
\<close>

theorem generate_plan_keeps_any_json:
  "generate_plan (Some ''sk-test'') (\<lambda>prompt. Inr ''{}'')
     (\<lambda>s. if s = ''{}'' then Inr (JObject []) else Inl ValueError)
     \<lparr>ordinal = 739000, tod_us = 0\<rparr> \<lparr>ordinal = 739000, tod_us = 7\<rparr>
     \<lparr>ordinal = 739000, tod_us = 9\<rparr> \<lparr>ordinal = 739000, tod_us = 11\<rparr>
     ''ship mvp in 3 days'' True
   = Inr (Parsed (JObject []))"
  by (rule generate_plan_parsed) (simp_all add: truthy_def)

end
